theory Spec2Isabelle
  imports Complex_Main "HOL-Library.Multiset" "HOL-Library.AList" "HOL-Library.Char_ord"
    "HOL-Library.List_Lexorder" "HOL-Library.Product_Lexorder"
begin

section \<open>Python values and the built-ins the loader uses\<close>

text \<open>
  The program is \<^verbatim>\<open>state_loader_no_imports.py\<close>: a CSV line parser
  (\<^verbatim>\<open>parse_csv_line\<close>), a record class (\<^verbatim>\<open>State\<close>) with its value inference
  (\<^verbatim>\<open>_convert\<close>), a loader (\<^verbatim>\<open>load_states_no_imports\<close>) and, inside \<^verbatim>\<open>main\<close>,
  the grouping of the records by state code and the per-group sort by date.

  Strings are lists of 8-bit characters. The string built-ins (\<^verbatim>\<open>strip\<close>,
  \<^verbatim>\<open>lower\<close>, \<^verbatim>\<open>upper\<close>, \<^verbatim>\<open>isdigit\<close>) are modelled on the ASCII range, where they
  agree with Python; characters beyond it are left alone by the model. Python integers
  are unbounded, hence \<^typ>\<open>int\<close>.
\<close>

datatype error = IndexError | ValueError | TypeError | AttributeError | OSError

text \<open>
  A float is the exact rational value of a finite double, or an infinity (which an
  overflowing literal such as \<^verbatim>\<open>1.0e999\<close> yields). No text with a decimal point parses to
  a NaN, so NaN is not a value here.
\<close>

datatype pyfloat = NegInf | Finite rat | PosInf

datatype pyval = PyNone | PyInt int | PyFloat pyfloat | PyStr string

abbreviation dquote :: char where
  "dquote \<equiv> CHR 0x22"

abbreviation comma :: char where
  "comma \<equiv> CHR '',''"

text \<open>\<^verbatim>\<open>str.isspace\<close> on one ASCII character: tab, LF, VT, FF, CR, FS, GS, RS, US, space.\<close>

definition isspace :: "char \<Rightarrow> bool" where
  "isspace c = (c \<in> set [CHR 0x09, CHR 0x0A, CHR 0x0B, CHR 0x0C, CHR 0x0D,
                           CHR 0x1C, CHR 0x1D, CHR 0x1E, CHR 0x1F, CHR 0x20])"

definition lstrip :: "string \<Rightarrow> string" where
  "lstrip s = dropWhile isspace s"

definition rstrip :: "string \<Rightarrow> string" where
  "rstrip s = rev (dropWhile isspace (rev s))"

definition strip :: "string \<Rightarrow> string" where
  "strip s = rstrip (lstrip s)"

text \<open>\<^verbatim>\<open>s.rstrip(chars)\<close>: drop the trailing characters that occur in \<open>chars\<close>.\<close>

definition rstrip_chars :: "string \<Rightarrow> string \<Rightarrow> string" where
  "rstrip_chars chars s = rev (dropWhile (\<lambda>c. c \<in> set chars) (rev s))"

definition ascii_lowercase :: string where
  "ascii_lowercase = ''abcdefghijklmnopqrstuvwxyz''"

definition ascii_uppercase :: string where
  "ascii_uppercase = ''ABCDEFGHIJKLMNOPQRSTUVWXYZ''"

definition lower_char :: "char \<Rightarrow> char" where
  "lower_char c = (case map_of (zip ascii_uppercase ascii_lowercase) c of
                     Some l \<Rightarrow> l | None \<Rightarrow> c)"

definition upper_char :: "char \<Rightarrow> char" where
  "upper_char c = (case map_of (zip ascii_lowercase ascii_uppercase) c of
                     Some u \<Rightarrow> u | None \<Rightarrow> c)"

definition lower :: "string \<Rightarrow> string" where
  "lower s = map lower_char s"

definition upper :: "string \<Rightarrow> string" where
  "upper s = map upper_char s"

definition digit_chars :: string where
  "digit_chars = ''0123456789''"

text \<open>\<^verbatim>\<open>s.isdigit()\<close>: at least one character, and every character a digit.\<close>

definition isdigit :: "string \<Rightarrow> bool" where
  "isdigit s = (s \<noteq> [] \<and> list_all (\<lambda>c. c \<in> set digit_chars) s)"

definition digit_value :: "char \<Rightarrow> nat" where
  "digit_value c = (of_char c - 48)"

definition digits_value :: "string \<Rightarrow> nat" where
  "digits_value ds = foldl (\<lambda>acc c. 10 * acc + digit_value c) 0 ds"

text \<open>
  \<^verbatim>\<open>int(s)\<close> on the texts the program hands it (an optional sign, then digits): the
  decimal value, or \<open>ValueError\<close>.
\<close>

definition py_int :: "string \<Rightarrow> error + int" where
  "py_int s =
     (case s of
        [] \<Rightarrow> Inl ValueError
      | c # cs \<Rightarrow>
          if c = CHR ''-'' then (if isdigit cs then Inr (- int (digits_value cs)) else Inl ValueError)
          else if c = CHR ''+'' then (if isdigit cs then Inr (int (digits_value cs)) else Inl ValueError)
          else if isdigit s then Inr (int (digits_value s)) else Inl ValueError)"

text \<open>\<^verbatim>\<open>line[i]\<close>: reading past the end of a string raises \<open>IndexError\<close>.\<close>

definition getitem :: "string \<Rightarrow> nat \<Rightarrow> error + char" where
  "getitem s i = (if i < length s then Inr (s ! i) else Inl IndexError)"

section \<open>The line parser\<close>

text \<open>
  The \<^verbatim>\<open>while i < len(line)\<close> loop of \<^verbatim>\<open>parse_csv_line\<close>, with its four variables
  \<open>i\<close>, \<open>in_quotes\<close>, \<open>cur\<close> and \<open>fields\<close>. It returns the variables as they are when the
  loop is left.
\<close>

function scan :: "string \<Rightarrow> nat \<Rightarrow> bool \<Rightarrow> string \<Rightarrow> string list
    \<Rightarrow> error + (string list \<times> string \<times> bool)" where
  "scan line i in_quotes cur fields =
     (if i < length line then
        (case getitem line i of
           Inl e \<Rightarrow> Inl e
         | Inr ch \<Rightarrow>
             if in_quotes then
               (if ch = dquote then
                  (if i + 1 < length line then
                     (case getitem line (i + 1) of
                        Inl e \<Rightarrow> Inl e
                      | Inr nxt \<Rightarrow>
                          if nxt = dquote then scan line (i + 1 + 1) True (cur @ [dquote]) fields
                          else scan line (i + 1) False cur fields)
                   else scan line (i + 1) False cur fields)
                else scan line (i + 1) True (cur @ [ch]) fields)
             else
               (if ch = comma then scan line (i + 1) False [] (fields @ [cur])
                else if ch = dquote then scan line (i + 1) True cur fields
                else scan line (i + 1) False (cur @ [ch]) fields))
      else Inr (fields, cur, in_quotes))"
  by pat_completeness auto
termination
  by (relation "measure (\<lambda>(line, i, in_quotes, cur, fields). length line - i)") auto

definition parse_csv_line :: "string \<Rightarrow> error + string list" where
  "parse_csv_line line =
     (case scan line 0 False [] [] of
        Inl e \<Rightarrow> Inl e
      | Inr (fields, cur, in_quotes) \<Rightarrow> Inr (fields @ [cur]))"

section \<open>Value inference and record construction\<close>

definition exempt_fields :: "string list" where
  "exempt_fields = [''fips'', ''hash'', ''totaltestresultssource'', ''dataqualitygrade'',
                    ''grade'', ''state'', ''lastupdateet'', ''checktimeet'']"

text \<open>\<^verbatim>\<open>State._looks_like_int\<close>.\<close>

definition looks_like_int :: "string \<Rightarrow> bool" where
  "looks_like_int s =
     (case s of
        [] \<Rightarrow> False
      | c # cs \<Rightarrow> if c \<in> set [CHR ''-'', CHR ''+''] then isdigit cs else isdigit s)"

text \<open>
  The two guarded conversions of \<^verbatim>\<open>_convert\<close>. \<open>Some v\<close> is \<^verbatim>\<open>return v\<close>; \<open>None\<close> is
  control falling through to the next statement (the guard was false, or the conversion
  raised and \<^verbatim>\<open>except Exception: pass\<close> dropped the error).
\<close>

definition try_int :: "string \<Rightarrow> pyval option" where
  "try_int s =
     (if looks_like_int s then
        (case py_int s of Inr n \<Rightarrow> Some (PyInt n) | Inl e \<Rightarrow> None)
      else None)"

text \<open>
  Python's \<^verbatim>\<open>float\<close> built-in rounds to a double; it is a parameter of the model, giving
  the value or the error for each text.
\<close>

definition try_float :: "(string \<Rightarrow> error + pyfloat) \<Rightarrow> string \<Rightarrow> pyval option" where
  "try_float py_float s =
     (if CHR ''.'' \<in> set s then
        (case py_float s of Inr f \<Rightarrow> Some (PyFloat f) | Inl e \<Rightarrow> None)
      else None)"

text \<open>\<^verbatim>\<open>State._convert(s, key_name)\<close>.\<close>

definition convert :: "(string \<Rightarrow> error + pyfloat) \<Rightarrow> string option \<Rightarrow> string \<Rightarrow> pyval" where
  "convert py_float s key_name =
     (case s of
        None \<Rightarrow> PyNone
      | Some s \<Rightarrow>
          let s2 = strip s in
          if s2 = [] then PyNone
          else
            let lower_key = lower key_name in
            if lower_key \<in> set exempt_fields then PyStr s2
            else
              (case (if comma \<in> set s2 then try_int (filter (\<lambda>c. c \<noteq> comma) s2) else None) of
                 Some v \<Rightarrow> v
               | None \<Rightarrow>
                   (case try_int s2 of
                      Some v \<Rightarrow> v
                    | None \<Rightarrow>
                        (case try_float py_float s2 of
                           Some v \<Rightarrow> v
                         | None \<Rightarrow> PyStr s2))))"

text \<open>
  A \<^verbatim>\<open>State\<close> object is its attribute dictionary, in insertion order: setting an
  attribute that exists replaces its value in place, a new one goes to the end.
\<close>

type_synonym state = "(string \<times> pyval) list"

definition setattr :: "state \<Rightarrow> string \<Rightarrow> pyval \<Rightarrow> state" where
  "setattr self name v = AList.update name v self"

definition getattr :: "state \<Rightarrow> string \<Rightarrow> pyval \<Rightarrow> pyval" where
  "getattr self name dflt = (case map_of self name of Some v \<Rightarrow> v | None \<Rightarrow> dflt)"

text \<open>\<^verbatim>\<open>State.__init__(header, row)\<close>.\<close>

definition normalize_row :: "string list \<Rightarrow> string list \<Rightarrow> string list" where
  "normalize_row header row =
     (if length row < length header then row @ replicate (length header - length row) []
      else if length row > length header then take (length header) row
      else row)"

definition State_init :: "(string \<Rightarrow> error + pyfloat) \<Rightarrow> string list \<Rightarrow> string list \<Rightarrow> state" where
  "State_init py_float header row =
     foldl (\<lambda>self (k, v). setattr self (strip k) (convert py_float (Some v) k)) []
       (zip header (normalize_row header row))"

text \<open>\<^verbatim>\<open>State.as_dict\<close> copies the attribute dictionary.\<close>

definition as_dict :: "state \<Rightarrow> (string \<times> pyval) list" where
  "as_dict self = foldl (\<lambda>d (k, v). AList.update k v d) [] self"

section \<open>The loader\<close>

abbreviation LF :: char where
  "LF \<equiv> CHR 0x0A"

abbreviation CR :: char where
  "CR \<equiv> CHR 0x0D"

text \<open>
  \<^verbatim>\<open>open(path, 'r')\<close> reads in universal-newlines mode: \<^verbatim>\<open>\r\n\<close> and a lone
  \<^verbatim>\<open>\r\<close> arrive as \<^verbatim>\<open>\n\<close>.
\<close>

fun universal_newlines :: "string \<Rightarrow> string" where
  "universal_newlines [] = []"
| "universal_newlines [c] = (if c = CR then [LF] else [c])"
| "universal_newlines (c # d # cs) =
     (if c = CR then
        (if d = LF then LF # universal_newlines cs else LF # universal_newlines (d # cs))
      else c # universal_newlines (d # cs))"

text \<open>The lines of a text as \<^verbatim>\<open>readline\<close> and file iteration give them, terminator kept.\<close>

fun readlines :: "string \<Rightarrow> string list" where
  "readlines [] = []"
| "readlines (c # cs) =
     (if c = LF then [LF] # readlines cs
      else (case readlines cs of [] \<Rightarrow> [[c]] | l # ls \<Rightarrow> (c # l) # ls))"

text \<open>The \<^verbatim>\<open>for line in fh\<close> loop of \<^verbatim>\<open>load_states_no_imports\<close>.\<close>

fun read_rows :: "(string \<Rightarrow> error + pyfloat) \<Rightarrow> string list \<Rightarrow> string list \<Rightarrow> state list
    \<Rightarrow> error + state list" where
  "read_rows py_float header [] states = Inr states"
| "read_rows py_float header (line # lines) states =
     (let line = rstrip_chars [LF, CR] line in
      if line = [] then read_rows py_float header lines states
      else
        (case parse_csv_line line of
           Inl e \<Rightarrow> Inl e
         | Inr row \<Rightarrow> read_rows py_float header lines (states @ [State_init py_float header row])))"

text \<open>
  \<^verbatim>\<open>load_states_no_imports(path)\<close>. The file system is a parameter: for each path the
  decoded text of the file, or the error that opening or reading it raises.
\<close>

definition load_states_no_imports :: "(string \<Rightarrow> error + pyfloat) \<Rightarrow> (string \<Rightarrow> error + string)
    \<Rightarrow> string \<Rightarrow> error + state list" where
  "load_states_no_imports py_float fs path =
     (case fs path of
        Inl e \<Rightarrow> Inl e
      | Inr content \<Rightarrow>
          (case readlines (universal_newlines content) of
             [] \<Rightarrow> Inr []
           | first # rest \<Rightarrow>
               (case parse_csv_line (rstrip_chars [LF, CR] first) of
                  Inl e \<Rightarrow> Inl e
                | Inr header \<Rightarrow> read_rows py_float (map strip header) rest [])))"

section \<open>The index built in \<^verbatim>\<open>main\<close>\<close>

text \<open>The \<^verbatim>\<open>groups\<close> dictionary, in insertion order.\<close>

type_synonym groups = "(string \<times> state list) list"

text \<open>\<^verbatim>\<open>groups.setdefault(k, []).append(s)\<close>.\<close>

definition setdefault_append :: "groups \<Rightarrow> string \<Rightarrow> state \<Rightarrow> groups" where
  "setdefault_append groups k s =
     AList.update k ((case map_of groups k of None \<Rightarrow> [] | Some rows \<Rightarrow> rows) @ [s]) groups"

text \<open>\<^verbatim>\<open>code.upper()\<close>: only a string has the method.\<close>

fun str_upper :: "pyval \<Rightarrow> error + string" where
  "str_upper (PyStr s) = Inr (upper s)"
| "str_upper v = Inl AttributeError"

text \<open>The grouping loop (lines 135 to 140). Nothing catches an error raised here.\<close>

fun build_groups :: "state list \<Rightarrow> groups \<Rightarrow> error + groups" where
  "build_groups [] groups = Inr groups"
| "build_groups (s # states) groups =
     (let code = getattr s ''state'' PyNone in
      if code = PyNone then build_groups states groups
      else
        (case str_upper code of
           Inl e \<Rightarrow> Inl e
         | Inr k \<Rightarrow> build_groups states (setdefault_append groups k s)))"

text \<open>Truth value of a Python value, as \<^verbatim>\<open>or\<close> tests it.\<close>

fun truthy :: "pyval \<Rightarrow> bool" where
  "truthy PyNone = False"
| "truthy (PyInt n) = (n \<noteq> 0)"
| "truthy (PyFloat f) = (f \<noteq> Finite 0)"
| "truthy (PyStr s) = (s \<noteq> [])"

text \<open>The sort key \<^verbatim>\<open>lambda x: (getattr(x, 'date', None) or 0)\<close>.\<close>

definition date_key :: "state \<Rightarrow> pyval" where
  "date_key x = (let d = getattr x ''date'' PyNone in if truthy d then d else PyInt 0)"

text \<open>
  Numbers are compared by value, integers against floats exactly; an infinity lies
  below or above every finite number.
\<close>

fun float_rank :: "pyfloat \<Rightarrow> int \<times> rat" where
  "float_rank NegInf = (- 1, 0)"
| "float_rank (Finite r) = (0, r)"
| "float_rank PosInf = (1, 0)"

text \<open>
  \<^verbatim>\<open>a < b\<close> on Python values: numbers with numbers, strings with strings (by character
  code); any other pairing raises \<open>TypeError\<close>.
\<close>

fun py_lt :: "pyval \<Rightarrow> pyval \<Rightarrow> error + bool" where
  "py_lt (PyInt a) (PyInt b) = Inr (a < b)"
| "py_lt (PyInt a) (PyFloat g) = Inr (float_rank (Finite (of_int a)) < float_rank g)"
| "py_lt (PyFloat f) (PyInt b) = Inr (float_rank f < float_rank (Finite (of_int b)))"
| "py_lt (PyFloat f) (PyFloat g) = Inr (float_rank f < float_rank g)"
| "py_lt (PyStr s) (PyStr t) = Inr (s < t)"
| "py_lt v w = Inl TypeError"

text \<open>
  \<^verbatim>\<open>rows.sort(key=...)\<close> is the runtime's stable sort. It compares keys with \<open><\<close> only;
  a comparison that raises ends the sort at once, the error leaves \<^verbatim>\<open>sort\<close>, and the
  list stays as far as the sort had come. The model sorts by insertion from the left:
  \<open>insort_row\<close> puts a record behind the records already placed whose keys are not
  greater, so that records with equal keys keep their order. Where the sort succeeds its
  result is the one every stable sort gives.
\<close>

fun insort_row :: "state \<Rightarrow> state list \<Rightarrow> error + state list" where
  "insort_row x [] = Inr [x]"
| "insort_row x (y # ys) =
     (case py_lt (date_key x) (date_key y) of
        Inl e \<Rightarrow> Inl e
      | Inr True \<Rightarrow> Inr (x # y # ys)
      | Inr False \<Rightarrow>
          (case insort_row x ys of
             Inl e \<Rightarrow> Inl e
           | Inr r \<Rightarrow> Inr (y # r)))"

text \<open>
  \<open>sort_from placed rest\<close>: \<open>placed\<close> are the records placed so far, \<open>rest\<close> the ones still to
  come. It returns the list as the sort leaves it and the error, if one was raised.
\<close>

fun sort_from :: "state list \<Rightarrow> state list \<Rightarrow> state list \<times> error option" where
  "sort_from placed [] = (placed, None)"
| "sort_from placed (x # rest) =
     (case insort_row x placed of
        Inl e \<Rightarrow> (placed @ x # rest, Some e)
      | Inr placed' \<Rightarrow> sort_from placed' rest)"

definition sort_rows :: "state list \<Rightarrow> state list \<times> error option" where
  "sort_rows rows = sort_from [] rows"

text \<open>
  The body of the sorting loop: \<^verbatim>\<open>try: rows.sort(...) except Exception: pass\<close>. The
  handler drops the error and the group keeps the list as the sort left it.
\<close>

definition try_sort :: "state list \<Rightarrow> error + state list" where
  "try_sort rows =
     (case sort_rows rows of
        (rows', None) \<Rightarrow> Inr rows'
      | (rows', Some e) \<Rightarrow> Inr rows')"

text \<open>The sorting loop over all groups (lines 143 to 147).\<close>

fun sort_groups :: "groups \<Rightarrow> error + groups" where
  "sort_groups [] = Inr []"
| "sort_groups ((code, rows) # gs) =
     (case try_sort rows of
        Inl e \<Rightarrow> Inl e
      | Inr rows' \<Rightarrow>
          (case sort_groups gs of
             Inl e \<Rightarrow> Inl e
           | Inr gs' \<Rightarrow> Inr ((code, rows') # gs')))"

text \<open>Lines 134 to 147 of \<^verbatim>\<open>main\<close>: group the loaded records, then sort each group.\<close>

definition build_index :: "state list \<Rightarrow> error + groups" where
  "build_index states =
     (case build_groups states [] of
        Inl e \<Rightarrow> Inl e
      | Inr groups \<Rightarrow> sort_groups groups)"

section \<open>Notions used to state the properties\<close>


text \<open>A value that is \<open>None\<close> or a string, as the loader produces for an exempt field.\<close>

definition str_or_none :: "pyval \<Rightarrow> bool" where
  "str_or_none v = (case v of PyNone \<Rightarrow> True | PyStr c \<Rightarrow> True | _ \<Rightarrow> False)"


text \<open>
  Sort keys are numbers or strings. \<open>numeric\<close> tells the two kinds apart, and
  \<open>key_rank\<close> places the keys of one kind in a linear order that agrees with \<open>py_lt\<close>.
\<close>

definition numeric :: "pyval \<Rightarrow> bool" where
  "numeric v = (case v of PyInt n \<Rightarrow> True | PyFloat f \<Rightarrow> True | _ \<Rightarrow> False)"

fun key_rank :: "pyval \<Rightarrow> int \<times> rat \<times> string" where
  "key_rank (PyInt n) = (0, of_int n, [])"
| "key_rank (PyFloat f) = (fst (float_rank f), snd (float_rank f), [])"
| "key_rank (PyStr s) = (2, 0, s)"
| "key_rank PyNone = (3, 0, [])"

text \<open>The sort keys of a list are of one kind: all numbers, or all strings.\<close>

definition one_kind :: "state list \<Rightarrow> bool" where
  "one_kind rows =
     (\<forall>a \<in> set rows. \<forall>b \<in> set rows. numeric (date_key a) = numeric (date_key b))"

text \<open>Where \<open>insort_row\<close> puts a record when every comparison succeeds.\<close>

definition place :: "state \<Rightarrow> state list \<Rightarrow> state list" where
  "place x ys =
     takeWhile (\<lambda>y. \<not> key_rank (date_key x) < key_rank (date_key y)) ys @
     x # dropWhile (\<lambda>y. \<not> key_rank (date_key x) < key_rank (date_key y)) ys"

section \<open>Properties of the line parser\<close>

declare scan.simps [simp del]

lemma scan_returns:
  "\<exists>fields' cur' q. scan line i in_quotes cur fields = Inr (fields', cur', q)"
proof (induction line i in_quotes cur fields rule: scan.induct)
  case (1 line i in_quotes cur fields)
  show ?case
  proof (cases "i < length line")
    case False
    then show ?thesis by (simp add: scan.simps)
  next
    case True
    then have g: "getitem line i = Inr (line ! i)" by (simp add: getitem_def)
    show ?thesis
      using True g "1.IH"
      by (subst scan.simps) (auto simp: getitem_def)
  qed
qed

lemma scan_quoted_rest:
  "dquote \<notin> set (drop i line) \<Longrightarrow>
   scan line i True cur fields = Inr (fields, cur @ drop i line, True)"
proof (induction "length line - i" arbitrary: i cur)
  case 0
  then show ?case by (subst scan.simps) simp
next
  case (Suc n)
  then have lt: "i < length line" by simp
  then have d: "drop i line = line ! i # drop (Suc i) line" by (simp add: Cons_nth_drop_Suc)
  with Suc.prems have ne: "line ! i \<noteq> dquote" and rest: "dquote \<notin> set (drop (Suc i) line)" by auto
  from Suc.hyps(2) lt have n: "n = length line - Suc i" by simp
  have "scan line i True cur fields = scan line (i + 1) True (cur @ [line ! i]) fields"
    using lt ne by (subst scan.simps) (simp add: getitem_def)
  also have "\<dots> = Inr (fields, (cur @ [line ! i]) @ drop (Suc i) line, True)"
    using Suc.hyps(1)[OF n rest] by simp
  finally show ?case using d by simp
qed

lemma scan_unquoted_prefix:
  "i \<le> length a \<Longrightarrow> dquote \<notin> set (drop i a) \<Longrightarrow>
   \<exists>fields' cur'. scan a i False cur fields = Inr (fields', cur', False) \<and>
     scan (a @ r) i False cur fields = scan (a @ r) (length a) False cur' fields'"
proof (induction "length a - i" arbitrary: i cur fields)
  case 0
  then have "i = length a" by simp
  then show ?case by (subst scan.simps) simp
next
  case (Suc n)
  then have lt: "i < length a" by simp
  then have d: "drop i a = a ! i # drop (Suc i) a" by (simp add: Cons_nth_drop_Suc)
  with Suc.prems have ne: "a ! i \<noteq> dquote" and rest: "dquote \<notin> set (drop (Suc i) a)" by auto
  from Suc.hyps(2) lt have n: "n = length a - Suc i" and le: "Suc i \<le> length a" by simp_all
  have nth: "(a @ r) ! i = a ! i" using lt by (simp add: nth_append)
  show ?case
  proof (cases "a ! i = comma")
    case True
    have s1: "scan a i False cur fields = scan a (Suc i) False [] (fields @ [cur])"
      using lt True by (subst scan.simps) (simp add: getitem_def)
    have s2: "scan (a @ r) i False cur fields = scan (a @ r) (Suc i) False [] (fields @ [cur])"
      using lt True nth by (subst scan.simps) (simp add: getitem_def)
    from Suc.hyps(1)[OF n le rest, of "[]" "fields @ [cur]"] s1 s2 show ?thesis by simp
  next
    case False
    have s1: "scan a i False cur fields = scan a (Suc i) False (cur @ [a ! i]) fields"
      using lt False ne by (subst scan.simps) (simp add: getitem_def)
    have s2: "scan (a @ r) i False cur fields = scan (a @ r) (Suc i) False (cur @ [a ! i]) fields"
      using lt False ne nth by (subst scan.simps) (simp add: getitem_def)
    from Suc.hyps(1)[OF n le rest, of "cur @ [a ! i]" fields] s1 s2 show ?thesis by simp
  qed
qed

lemma scan_open_quote:
  "scan (a @ dquote # b) (length a) False cur fields =
   scan (a @ dquote # b) (Suc (length a)) True cur fields"
  by (subst scan.simps) (simp add: getitem_def)

text \<open>
  Claim C8. \<^verbatim>\<open>parse_csv_line\<close> returns a list of fields for every line and raises
  nothing: the loop ends with some \<open>fields\<close> and \<open>cur\<close>, and the result is \<open>fields\<close>
  followed by \<open>cur\<close>. A line whose only quote character is never closed is accepted:
  the loop is left in quoted mode, and the last field is what was buffered before the
  quote followed by everything after it.
\<close>

theorem parse_csv_line_total:
  "(\<exists>fields cur q. scan line 0 False [] [] = Inr (fields, cur, q) \<and>
      parse_csv_line line = Inr (fields @ [cur])) \<and>
   (dquote \<notin> set a \<and> dquote \<notin> set b \<longrightarrow>
      (\<exists>fields cur. parse_csv_line a = Inr (fields @ [cur]) \<and>
         scan (a @ dquote # b) 0 False [] [] = Inr (fields, cur @ b, True) \<and>
         parse_csv_line (a @ dquote # b) = Inr (fields @ [cur @ b])))"
proof (intro conjI impI)
  from scan_returns[of line 0 False "[]" "[]"]
  show "\<exists>fields cur q. scan line 0 False [] [] = Inr (fields, cur, q) \<and>
      parse_csv_line line = Inr (fields @ [cur])"
    by (auto simp: parse_csv_line_def)
next
  assume nq: "dquote \<notin> set a \<and> dquote \<notin> set b"
  then have "dquote \<notin> set (drop 0 a)" by simp
  from scan_unquoted_prefix[OF _ this, of "[]" "[]" "dquote # b"]
  obtain fields cur where
    a: "scan a 0 False [] [] = Inr (fields, cur, False)" and
    ab: "scan (a @ dquote # b) 0 False [] [] = scan (a @ dquote # b) (length a) False cur fields"
    by auto
  have "dquote \<notin> set (drop (Suc (length a)) (a @ dquote # b))" using nq by simp
  from scan_quoted_rest[OF this, of cur fields]
  have q: "scan (a @ dquote # b) (Suc (length a)) True cur fields = Inr (fields, cur @ b, True)"
    by simp
  have full: "scan (a @ dquote # b) 0 False [] [] = Inr (fields, cur @ b, True)"
    using ab scan_open_quote[of a b cur fields] q by simp
  show "\<exists>fields cur. parse_csv_line a = Inr (fields @ [cur]) \<and>
         scan (a @ dquote # b) 0 False [] [] = Inr (fields, cur @ b, True) \<and>
         parse_csv_line (a @ dquote # b) = Inr (fields @ [cur @ b])"
    using a full by (auto simp: parse_csv_line_def)
qed

theorem parse_csv_line_total_witness:
  "dquote \<notin> set ''x,'' \<and> dquote \<notin> set ''abc,d'' \<and>
   parse_csv_line (''x,'' @ dquote # ''abc,d'') = Inr [''x'', ''abc,d'']"
proof -
  have h: "dquote \<notin> set ''x,'' \<and> dquote \<notin> set ''abc,d''" by simp
  have a: "parse_csv_line ''x,'' = Inr [''x'', '''']" by code_simp
  from parse_csv_line_total[of "''x,''" "''x,''" "''abc,d''"] h
  obtain fields cur where
    "parse_csv_line ''x,'' = Inr (fields @ [cur])"
    "parse_csv_line (''x,'' @ dquote # ''abc,d'') = Inr (fields @ [cur @ ''abc,d''])"
    by blast
  with a have "fields = [''x''] \<and> cur = []" by simp
  with \<open>parse_csv_line (''x,'' @ dquote # ''abc,d'') = Inr (fields @ [cur @ ''abc,d''])\<close> h
  show ?thesis by simp
qed

text \<open>
  Claim C9. The three example lines: a quoted field keeps its comma, a doubled quote
  inside a quoted field is one quote character, and the empty line has one empty field.
\<close>

theorem parse_csv_line_examples:
  "parse_csv_line ([dquote] @ ''a,b'' @ [dquote] @ '',c'') = Inr [''a,b'', ''c''] \<and>
   parse_csv_line ([dquote] @ ''He said '' @ [dquote, dquote] @ ''hi'' @ [dquote, dquote, dquote] @ '',x'')
     = Inr [''He said '' @ [dquote] @ ''hi'' @ [dquote], ''x''] \<and>
   parse_csv_line '''' = Inr ['''']"
proof (intro conjI)
  show "parse_csv_line ([dquote] @ ''a,b'' @ [dquote] @ '',c'') = Inr [''a,b'', ''c'']"
    by code_simp
  show "parse_csv_line ([dquote] @ ''He said '' @ [dquote, dquote] @ ''hi'' @ [dquote, dquote, dquote] @ '',x'')
     = Inr [''He said '' @ [dquote] @ ''hi'' @ [dquote], ''x'']"
    by code_simp
  show "parse_csv_line '''' = Inr ['''']"
    by code_simp
qed

section \<open>Properties of value inference and of the loader\<close>




text \<open>
  Claim C6. When the raw text is not empty after trimming and the lower-cased field name
  is one of the eight exempt names, \<^verbatim>\<open>_convert\<close> returns the trimmed text as a string,
  whatever the text looks like; so \<^verbatim>\<open>06\<close> under \<^verbatim>\<open>fips\<close> stays the string \<^verbatim>\<open>06\<close> and
  is not the integer 6.
\<close>

theorem convert_exempt_field:
  "(strip raw \<noteq> [] \<and>
    lower field \<in> {''fips'', ''hash'', ''totaltestresultssource'', ''dataqualitygrade'',
                    ''grade'', ''state'', ''lastupdateet'', ''checktimeet''} \<longrightarrow>
      convert py_float (Some raw) field = PyStr (strip raw)) \<and>
   convert py_float (Some ''06'') ''fips'' = PyStr ''06'' \<and>
   convert py_float (Some ''06'') ''fips'' \<noteq> PyInt 6"
proof (intro conjI impI)
  assume "strip raw \<noteq> [] \<and>
    lower field \<in> {''fips'', ''hash'', ''totaltestresultssource'', ''dataqualitygrade'',
                    ''grade'', ''state'', ''lastupdateet'', ''checktimeet''}"
  then show "convert py_float (Some raw) field = PyStr (strip raw)"
    by (simp add: convert_def exempt_fields_def Let_def)
next
  have s: "strip ''06'' = ''06''" by code_simp
  have l: "lower ''fips'' = ''fips''" by code_simp
  show e: "convert py_float (Some ''06'') ''fips'' = PyStr ''06''"
    by (simp add: convert_def exempt_fields_def Let_def s l)
  show "convert py_float (Some ''06'') ''fips'' \<noteq> PyInt 6"
    by (simp add: e)
qed

theorem convert_exempt_field_witness:
  "strip '' 06 '' \<noteq> [] \<and>
   lower ''FIPS'' \<in> {''fips'', ''hash'', ''totaltestresultssource'', ''dataqualitygrade'',
                    ''grade'', ''state'', ''lastupdateet'', ''checktimeet''} \<and>
   convert (\<lambda>s. Inl ValueError) (Some '' 06 '') ''FIPS'' = PyStr ''06''"
proof -
  have s: "strip '' 06 '' = ''06''" by code_simp
  have l: "lower ''FIPS'' = ''fips''" by code_simp
  have h: "strip '' 06 '' \<noteq> [] \<and>
   lower ''FIPS'' \<in> {''fips'', ''hash'', ''totaltestresultssource'', ''dataqualitygrade'',
                    ''grade'', ''state'', ''lastupdateet'', ''checktimeet''}"
    by (simp add: s l)
  have "convert (\<lambda>s. Inl ValueError) (Some '' 06 '') ''FIPS'' = PyStr (strip '' 06 '')"
    by (rule mp[OF conjunct1[OF convert_exempt_field] h])
  then have c: "convert (\<lambda>s. Inl ValueError) (Some '' 06 '') ''FIPS'' = PyStr ''06''"
    by (simp only: s)
  show ?thesis by (intro conjI) (rule conjunct1[OF h], rule conjunct2[OF h], rule c)
qed



text \<open>
  Claim C10. Loading a file that opens and reads but has no content at all gives the
  empty list of records, and no error.
\<close>

theorem load_empty_file:
  "fs path = Inr [] \<longrightarrow> load_states_no_imports py_float fs path = Inr []"
  by (simp add: load_states_no_imports_def)

theorem load_empty_file_witness:
  "(\<lambda>p. if p = ''empty.csv'' then Inr [] else Inl OSError) ''empty.csv'' = Inr [] \<and>
   load_states_no_imports (\<lambda>s. Inl ValueError)
     (\<lambda>p. if p = ''empty.csv'' then Inr [] else Inl OSError) ''empty.csv'' = Inr []"
  using load_empty_file[of "\<lambda>p. if p = ''empty.csv'' then Inr [] else Inl OSError" "''empty.csv''"
      "\<lambda>s. Inl ValueError"]
  by simp

section \<open>Properties of record construction\<close>



lemma getattr_setattr:
  "getattr (setattr self name v) name' dflt = (if name' = name then v else getattr self name' dflt)"
  by (simp add: getattr_def setattr_def update_conv')

















section \<open>Grouping and sorting: basic facts\<close>




lemma build_groups_step:
  "build_groups (s # states) g =
     (case getattr s ''state'' PyNone of
        PyNone \<Rightarrow> build_groups states g
      | PyStr c \<Rightarrow> build_groups states (setdefault_append g (upper c) s)
      | PyInt n \<Rightarrow> Inl AttributeError
      | PyFloat f \<Rightarrow> Inl AttributeError)"
  by (simp add: Let_def split: pyval.splits)






lemma build_groups_raises:
  "s \<in> set states \<Longrightarrow> \<not> str_or_none (getattr s ''state'' PyNone) \<Longrightarrow>
   build_groups states g = Inl AttributeError"
proof (induction states arbitrary: g)
  case Nil
  then show ?case by simp
next
  case (Cons a states)
  show ?case
  proof (cases "getattr a ''state'' PyNone")
    case PyNone
    with Cons.prems have "s \<in> set states" by (auto simp: str_or_none_def)
    from Cons.IH[OF this Cons.prems(2)] PyNone show ?thesis by (simp add: build_groups_step)
  next
    case (PyStr c)
    with Cons.prems have "s \<in> set states" by (auto simp: str_or_none_def)
    from Cons.IH[OF this Cons.prems(2)] PyStr show ?thesis by (simp add: build_groups_step)
  next
    case (PyInt n)
    then show ?thesis by (simp add: build_groups_step)
  next
    case (PyFloat f)
    then show ?thesis by (simp add: build_groups_step)
  qed
qed


lemma insort_row_mset:
  "insort_row x ys = Inr zs \<Longrightarrow> mset zs = add_mset x (mset ys)"
proof (induction ys arbitrary: zs)
  case Nil
  then show ?case by auto
next
  case (Cons y ys)
  then show ?case
    by (auto split: sum.splits bool.splits)
qed

lemma sort_from_mset: "mset (fst (sort_from placed rest)) = mset placed + mset rest"
proof (induction rest arbitrary: placed)
  case Nil
  then show ?case by simp
next
  case (Cons x rest)
  show ?case
  proof (cases "insort_row x placed")
    case (Inl e)
    then show ?thesis by simp
  next
    case (Inr placed')
    from Cons.IH[of placed'] insort_row_mset[OF Inr] Inr show ?thesis by simp
  qed
qed

lemma sort_rows_mset: "mset (fst (sort_rows rows)) = mset rows"
  by (simp add: sort_rows_def sort_from_mset)



section \<open>The state field of loaded records\<close>

lemma rstrip_keeps_head:
  assumes "t \<noteq> []" "\<not> isspace (hd t)"
  shows "\<exists>zs. rstrip t = hd t # zs"
proof -
  from assms(1) have "rev t = rev (tl t) @ [hd t]"
    by (cases t) simp_all
  then have "dropWhile isspace (rev t) = dropWhile isspace (rev (tl t) @ [hd t])" by simp
  also have "\<exists>ws. \<dots> = ws @ [hd t]"
    using assms(2) by (simp add: dropWhile_append)
  finally obtain ws where "dropWhile isspace (rev t) = ws @ [hd t]" by blast
  then have "rstrip t = hd t # rev ws" by (simp add: rstrip_def)
  then show ?thesis by blast
qed

lemma lstrip_rstrip_lstrip: "lstrip (rstrip (lstrip s)) = rstrip (lstrip s)"
proof (cases "lstrip s = []")
  case True
  show ?thesis unfolding True by (simp add: rstrip_def lstrip_def)
next
  case False
  have "\<not> isspace (hd (lstrip s))"
    using False unfolding lstrip_def by (rule hd_dropWhile)
  from rstrip_keeps_head[OF False this] obtain zs where z: "rstrip (lstrip s) = hd (lstrip s) # zs"
    by blast
  show ?thesis
    using \<open>\<not> isspace (hd (lstrip s))\<close> by (simp add: z) (simp add: lstrip_def)
qed

lemma strip_idem: "strip (strip s) = strip s"
proof -
  have "rstrip (rstrip (lstrip s)) = rstrip (lstrip s)"
    by (simp add: rstrip_def dropWhile_idem)
  then show ?thesis by (simp add: strip_def lstrip_rstrip_lstrip)
qed

lemma lower_state: "lower ''state'' = ''state''"
  by code_simp

lemma convert_state_field: "str_or_none (convert py_float (Some v) ''state'')"
  by (simp add: convert_def Let_def lower_state exempt_fields_def str_or_none_def)

lemma foldl_state_field:
  "\<forall>k \<in> fst ` set ps. strip k = k \<Longrightarrow> str_or_none (getattr acc ''state'' PyNone) \<Longrightarrow>
   str_or_none (getattr
     (foldl (\<lambda>self (k, v). setattr self (strip k) (convert py_float (Some v) k)) acc ps)
     ''state'' PyNone)"
proof (induction ps arbitrary: acc)
  case Nil
  then show ?case by simp
next
  case (Cons p ps)
  obtain k v where p: "p = (k, v)" by (cases p)
  from Cons.prems(1) p have k: "strip k = k" and rest: "\<forall>k \<in> fst ` set ps. strip k = k"
    by auto
  have "str_or_none (getattr (setattr acc (strip k) (convert py_float (Some v) k)) ''state'' PyNone)"
    using Cons.prems(2) k convert_state_field[of py_float v]
    by (auto simp: getattr_setattr)
  from Cons.IH[OF rest this] show ?case by (simp add: p)
qed

lemma State_init_state_field:
  assumes "\<forall>k \<in> set header. strip k = k"
  shows "str_or_none (getattr (State_init py_float header row) ''state'' PyNone)"
proof -
  have "\<forall>k \<in> fst ` set (zip header (normalize_row header row)). strip k = k"
    using assms by (auto dest: set_zip_leftD)
  moreover have "str_or_none (getattr [] ''state'' PyNone)"
    by (simp add: getattr_def str_or_none_def)
  ultimately show ?thesis
    unfolding State_init_def by (rule foldl_state_field)
qed

lemma read_rows_state_field:
  "\<forall>k \<in> set header. strip k = k \<Longrightarrow>
   \<forall>s \<in> set states. str_or_none (getattr s ''state'' PyNone) \<Longrightarrow>
   read_rows py_float header lines states = Inr store \<Longrightarrow>
   \<forall>s \<in> set store. str_or_none (getattr s ''state'' PyNone)"
proof (induction lines arbitrary: states)
  case Nil
  then show ?case by simp
next
  case (Cons line lines)
  show ?case
  proof (cases "rstrip_chars [LF, CR] line = []")
    case True
    with Cons.prems(3) have "read_rows py_float header lines states = Inr store"
      by (simp add: Let_def)
    from Cons.IH[OF Cons.prems(1,2) this] show ?thesis .
  next
    case False
    show ?thesis
    proof (cases "parse_csv_line (rstrip_chars [LF, CR] line)")
      case (Inl e)
      with False Cons.prems(3) show ?thesis by (simp add: Let_def)
    next
      case (Inr row)
      with False Cons.prems(3)
      have r: "read_rows py_float header lines (states @ [State_init py_float header row]) = Inr store"
        by (simp add: Let_def)
      have "\<forall>s \<in> set (states @ [State_init py_float header row]).
              str_or_none (getattr s ''state'' PyNone)"
        using Cons.prems(2) State_init_state_field[OF Cons.prems(1)] by auto
      from Cons.IH[OF Cons.prems(1) this r] show ?thesis .
    qed
  qed
qed

lemma load_state_field:
  assumes "load_states_no_imports py_float fs path = Inr store"
  shows "\<forall>s \<in> set store. str_or_none (getattr s ''state'' PyNone)"
proof (cases "fs path")
  case (Inl e)
  with assms show ?thesis by (simp add: load_states_no_imports_def)
next
  case (Inr content)
  show ?thesis
  proof (cases "readlines (universal_newlines content)")
    case Nil
    with Inr assms show ?thesis by (simp add: load_states_no_imports_def)
  next
    case (Cons first rest)
    show ?thesis
    proof (cases "parse_csv_line (rstrip_chars [LF, CR] first)")
      case (Inl e)
      with Inr Cons assms show ?thesis by (simp add: load_states_no_imports_def)
    next
      case hdr: (Inr header)
      with Inr Cons assms
      have r: "read_rows py_float (map strip header) rest [] = Inr store"
        by (simp add: load_states_no_imports_def)
      have "\<forall>k \<in> set (map strip header). strip k = k"
        by (auto simp: strip_idem)
      from read_rows_state_field[OF this _ r] show ?thesis by simp
    qed
  qed
qed

section \<open>Properties of the grouping\<close>









section \<open>Facts about the sort\<close>

lemma date_key_not_None: "date_key x \<noteq> PyNone"
  by (cases "getattr x ''date'' PyNone") (auto simp: date_key_def Let_def)

lemma py_lt_rank:
  "a \<noteq> PyNone \<Longrightarrow> b \<noteq> PyNone \<Longrightarrow>
   py_lt a b = (if numeric a = numeric b then Inr (key_rank a < key_rank b) else Inl TypeError)"
proof (cases a)
  case PyNone
  assume "a \<noteq> PyNone"
  with PyNone show ?thesis by simp
next
  case (PyInt m)
  assume "b \<noteq> PyNone"
  then show ?thesis
  proof (cases b)
    case (PyFloat g)
    with PyInt show ?thesis by (cases g) (simp_all add: numeric_def)
  qed (simp_all add: PyInt numeric_def)
next
  case (PyFloat f)
  assume "b \<noteq> PyNone"
  then show ?thesis
  proof (cases b)
    case (PyInt n)
    with PyFloat show ?thesis by (cases f) (simp_all add: numeric_def)
  next
    case g: (PyFloat g)
    with PyFloat show ?thesis by (cases f; cases g) (simp_all add: numeric_def)
  qed (simp_all add: PyFloat numeric_def)
next
  case (PyStr s)
  assume "b \<noteq> PyNone"
  then show ?thesis
    by (cases b) (simp_all add: PyStr numeric_def)
qed

lemma py_lt_date_key:
  "py_lt (date_key x) (date_key y) =
     (if numeric (date_key x) = numeric (date_key y)
      then Inr (key_rank (date_key x) < key_rank (date_key y)) else Inl TypeError)"
  by (rule py_lt_rank[OF date_key_not_None date_key_not_None])

lemma place_Nil: "place x [] = [x]"
  by (simp add: place_def)

lemma place_Cons:
  "place x (y # ys) =
     (if key_rank (date_key x) < key_rank (date_key y) then x # y # ys else y # place x ys)"
  by (simp add: place_def)

lemma set_place: "set (place x ys) = insert x (set ys)"
proof -
  have "set (place x ys) =
        insert x (set (takeWhile (\<lambda>y. \<not> key_rank (date_key x) < key_rank (date_key y)) ys @
                       dropWhile (\<lambda>y. \<not> key_rank (date_key x) < key_rank (date_key y)) ys))"
    unfolding place_def by (simp only: set_append set_simps) blast
  then show ?thesis by (simp only: takeWhile_dropWhile_id)
qed

lemma insort_row_place:
  "\<forall>y \<in> set ys. numeric (date_key y) = numeric (date_key x) \<Longrightarrow>
   insort_row x ys = Inr (place x ys)"
proof (induction ys)
  case Nil
  show ?case by (simp add: place_Nil)
next
  case (Cons y ys)
  from Cons.prems have k: "numeric (date_key x) = numeric (date_key y)"
    and rest: "\<forall>y \<in> set ys. numeric (date_key y) = numeric (date_key x)" by simp_all
  from Cons.IH[OF rest] k show ?case
    by (simp add: py_lt_date_key place_Cons)
qed

lemma insort_row_raises:
  "ys \<noteq> [] \<Longrightarrow> \<forall>y \<in> set ys. numeric (date_key y) \<noteq> numeric (date_key x) \<Longrightarrow>
   insort_row x ys = Inl TypeError"
proof (cases ys)
  case Nil
  assume "ys \<noteq> []"
  with Nil show ?thesis by simp
next
  case (Cons y zs)
  assume "\<forall>y \<in> set ys. numeric (date_key y) \<noteq> numeric (date_key x)"
  with Cons have "numeric (date_key x) \<noteq> numeric (date_key y)" by auto
  then show ?thesis by (simp add: Cons py_lt_date_key)
qed

lemma sorted_place:
  "sorted (map (\<lambda>r. key_rank (date_key r)) ys) \<Longrightarrow>
   sorted (map (\<lambda>r. key_rank (date_key r)) (place x ys))"
proof (induction ys)
  case Nil
  show ?case by (simp add: place_Nil)
next
  case (Cons y ys)
  from Cons.prems have le: "\<forall>z \<in> set ys. key_rank (date_key y) \<le> key_rank (date_key z)"
    and s: "sorted (map (\<lambda>r. key_rank (date_key r)) ys)" by simp_all
  show ?case
  proof (cases "key_rank (date_key x) < key_rank (date_key y)")
    case True
    with le have "\<forall>z \<in> set ys. key_rank (date_key x) \<le> key_rank (date_key z)"
      by (meson less_le_trans less_imp_le)
    with True Cons.prems show ?thesis by (simp add: place_Cons less_imp_le)
  next
    case False
    then have "key_rank (date_key y) \<le> key_rank (date_key x)" by simp
    with le have "\<forall>z \<in> set (place x ys). key_rank (date_key y) \<le> key_rank (date_key z)"
      by (simp add: set_place)
    with False Cons.IH[OF s] show ?thesis by (simp add: place_Cons)
  qed
qed


lemma one_kind_place:
  "one_kind (place x ys @ rest) = one_kind (ys @ x # rest)"
  by (simp add: one_kind_def set_place)

lemma one_kind_prefix: "one_kind (placed @ rest) \<Longrightarrow> one_kind placed"
  by (simp add: one_kind_def)

lemma one_kind_head:
  "one_kind (placed @ x # rest) \<Longrightarrow>
   \<forall>y \<in> set placed. numeric (date_key y) = numeric (date_key x)"
  by (simp add: one_kind_def)

lemma one_kindD:
  assumes "one_kind rows" "a \<in> set rows" "b \<in> set rows"
  shows "numeric (date_key a) = numeric (date_key b)"
proof -
  from assms(1) have "\<forall>a \<in> set rows. \<forall>b \<in> set rows. numeric (date_key a) = numeric (date_key b)"
    by (simp only: one_kind_def)
  then have "\<forall>b \<in> set rows. numeric (date_key a) = numeric (date_key b)"
    using assms(2) by (rule bspec)
  then show ?thesis using assms(3) by (rule bspec)
qed

lemma one_kind_placed:
  assumes "one_kind placed" "\<forall>y \<in> set placed. numeric (date_key y) = numeric (date_key x)"
  shows "one_kind (place x placed)"
  unfolding one_kind_def set_place
proof (intro ballI)
  fix a b
  assume a: "a \<in> insert x (set placed)" and b: "b \<in> insert x (set placed)"
  have "numeric (date_key a) = numeric (date_key x)"
  proof (cases "a = x")
    case True
    then show ?thesis by (simp only:)
  next
    case False
    with a have "a \<in> set placed" by simp
    with assms(2) show ?thesis by (rule bspec)
  qed
  moreover have "numeric (date_key b) = numeric (date_key x)"
  proof (cases "b = x")
    case True
    then show ?thesis by (simp only:)
  next
    case False
    with b have "b \<in> set placed" by simp
    with assms(2) show ?thesis by (rule bspec)
  qed
  ultimately show "numeric (date_key a) = numeric (date_key b)" by (simp only:)
qed

lemma one_kind_other:
  assumes "one_kind placed" "y \<in> set placed" "numeric (date_key y) \<noteq> numeric (date_key x)"
  shows "\<forall>z \<in> set placed. numeric (date_key z) \<noteq> numeric (date_key x)"
proof
  fix z
  assume "z \<in> set placed"
  from one_kindD[OF assms(1) this assms(2)] assms(3)
  show "numeric (date_key z) \<noteq> numeric (date_key x)" by simp
qed

lemma sort_from_one_kind:
  "one_kind (placed @ rest) \<Longrightarrow> sorted (map (\<lambda>r. key_rank (date_key r)) placed) \<Longrightarrow>
   snd (sort_from placed rest) = None \<and>
   sorted (map (\<lambda>r. key_rank (date_key r)) (fst (sort_from placed rest)))"
proof (induction rest arbitrary: placed)
  case Nil
  then show ?case by simp
next
  case (Cons x rest)
  have i: "insort_row x placed = Inr (place x placed)"
    by (rule insort_row_place[OF one_kind_head[OF Cons.prems(1)]])
  have k: "one_kind (place x placed @ rest)"
    using Cons.prems(1) by (simp only: one_kind_place)
  from Cons.IH[OF k sorted_place[OF Cons.prems(2)]] show ?case by (simp add: i)
qed

lemma sort_from_mixed:
  "one_kind placed \<Longrightarrow> \<not> one_kind (placed @ rest) \<Longrightarrow>
   snd (sort_from placed rest) = Some TypeError"
proof (induction rest arbitrary: placed)
  case Nil
  then show ?case by simp
next
  case (Cons x rest)
  show ?case
  proof (cases "\<forall>y \<in> set placed. numeric (date_key y) = numeric (date_key x)")
    case True
    have i: "insort_row x placed = Inr (place x placed)"
      by (rule insort_row_place[OF True])
    have k: "one_kind (place x placed)"
      by (rule one_kind_placed[OF Cons.prems(1) True])
    have m: "\<not> one_kind (place x placed @ rest)"
      using Cons.prems(2) by (simp add: one_kind_place)
    from Cons.IH[OF k m] show ?thesis by (simp add: i)
  next
    case False
    then obtain y where y: "y \<in> set placed" "numeric (date_key y) \<noteq> numeric (date_key x)"
      by blast
    have d: "\<forall>z \<in> set placed. numeric (date_key z) \<noteq> numeric (date_key x)"
      by (rule one_kind_other[OF Cons.prems(1) y])
    from y(1) have ne: "placed \<noteq> []" by auto
    have "insort_row x placed = Inl TypeError" by (rule insort_row_raises[OF ne d])
    then show ?thesis by simp
  qed
qed


lemma one_kind_Nil: "one_kind []"
  by (simp add: one_kind_def)

lemma sort_rows_one_kind:
  "one_kind rows \<Longrightarrow>
   snd (sort_rows rows) = None \<and>
   sorted (map (\<lambda>r. key_rank (date_key r)) (fst (sort_rows rows)))"
  unfolding sort_rows_def by (rule sort_from_one_kind) simp_all

lemma sort_rows_mixed: "\<not> one_kind rows \<Longrightarrow> snd (sort_rows rows) = Some TypeError"
  unfolding sort_rows_def by (rule sort_from_mixed[OF one_kind_Nil]) simp


section \<open>Properties of the per-group sort\<close>



lemma sort_rows_done_one_kind: "snd (sort_rows rows) = None \<Longrightarrow> one_kind rows"
proof (rule ccontr)
  assume "snd (sort_rows rows) = None" "\<not> one_kind rows"
  with sort_rows_mixed[of rows] show False by simp
qed

lemma set_sort_rows: "set (fst (sort_rows rows)) = set rows"
  using arg_cong[OF sort_rows_mset[of rows], of set_mset] by simp

lemma sort_rows_ordered:
  assumes "snd (sort_rows rows) = None" "fst (sort_rows rows) = as @ a # bs @ b # cs"
  shows "py_lt (date_key b) (date_key a) = Inr False"
proof -
  have k: "one_kind rows" by (rule sort_rows_done_one_kind[OF assms(1)])
  from sort_rows_one_kind[OF k]
  have "sorted (map (\<lambda>r. key_rank (date_key r)) (as @ a # bs @ b # cs))"
    by (simp only: assms(2))
  then have le: "key_rank (date_key a) \<le> key_rank (date_key b)"
    by (simp add: sorted_append)
  have "a \<in> set (fst (sort_rows rows))" "b \<in> set (fst (sort_rows rows))"
    by (simp_all add: assms(2))
  then have "a \<in> set rows" "b \<in> set rows" by (simp_all only: set_sort_rows)
  from one_kindD[OF k this(2,1)] have "numeric (date_key b) = numeric (date_key a)" .
  with le show ?thesis by (simp add: py_lt_date_key not_less)
qed

lemma date_key_None: "getattr x ''date'' PyNone = PyNone \<Longrightarrow> date_key x = PyInt 0"
  by (simp add: date_key_def)

lemma date_key_PyInt: "getattr x ''date'' PyNone = PyInt n \<Longrightarrow> date_key x = PyInt n"
  by (simp add: date_key_def)




text \<open>
  Claim C3, as the code has it. A missing or \<open>None\<close> date sorts as the integer 0, which is
  not the lowest key. In a group whose sort completes no record stands after one with a
  greater key; so a record without a date stands after the records with a negative date
  and before those with a positive one. Comparing such a record with a record that has
  a number for its date raises nothing.
\<close>

theorem null_date_sorts_as_zero:
  "(getattr x ''date'' PyNone = PyNone \<longrightarrow> date_key x = PyInt 0) \<and>
   (snd (sort_rows rows) = None \<and> fst (sort_rows rows) = as @ a # bs @ b # cs \<longrightarrow>
      py_lt (date_key b) (date_key a) = Inr False) \<and>
   (snd (sort_rows rows) = None \<and> fst (sort_rows rows) = as @ a # bs @ b # cs \<and>
    getattr a ''date'' PyNone = PyNone \<and> getattr b ''date'' PyNone = PyInt n \<longrightarrow> 0 \<le> n) \<and>
   (snd (sort_rows rows) = None \<and> fst (sort_rows rows) = as @ a # bs @ b # cs \<and>
    getattr a ''date'' PyNone = PyInt n \<and> getattr b ''date'' PyNone = PyNone \<longrightarrow> n \<le> 0) \<and>
   (getattr x ''date'' PyNone = PyNone \<and> numeric (date_key y) \<longrightarrow>
      (\<exists>r. py_lt (date_key x) (date_key y) = Inr r) \<and>
      (\<exists>r. py_lt (date_key y) (date_key x) = Inr r))"
proof (intro conjI impI)
  assume "getattr x ''date'' PyNone = PyNone"
  then show "date_key x = PyInt 0" by (rule date_key_None)
next
  assume "snd (sort_rows rows) = None \<and> fst (sort_rows rows) = as @ a # bs @ b # cs"
  then show "py_lt (date_key b) (date_key a) = Inr False"
    using sort_rows_ordered by blast
next
  assume h: "snd (sort_rows rows) = None \<and> fst (sort_rows rows) = as @ a # bs @ b # cs \<and>
    getattr a ''date'' PyNone = PyNone \<and> getattr b ''date'' PyNone = PyInt n"
  then have "py_lt (date_key b) (date_key a) = Inr False"
    using sort_rows_ordered by blast
  moreover from h have "date_key a = PyInt 0" "date_key b = PyInt n"
    by (simp_all add: date_key_None date_key_PyInt)
  ultimately show "0 \<le> n" by simp
next
  assume h: "snd (sort_rows rows) = None \<and> fst (sort_rows rows) = as @ a # bs @ b # cs \<and>
    getattr a ''date'' PyNone = PyInt n \<and> getattr b ''date'' PyNone = PyNone"
  then have "py_lt (date_key b) (date_key a) = Inr False"
    using sort_rows_ordered by blast
  moreover from h have "date_key b = PyInt 0" "date_key a = PyInt n"
    by (simp_all add: date_key_None date_key_PyInt)
  ultimately show "n \<le> 0" by simp
next
  assume h: "getattr x ''date'' PyNone = PyNone \<and> numeric (date_key y)"
  then have "date_key x = PyInt 0" by (simp add: date_key_None)
  then have k: "numeric (date_key x) = numeric (date_key y)"
    using h by (simp add: numeric_def)
  show "\<exists>r. py_lt (date_key x) (date_key y) = Inr r"
    using k by (simp add: py_lt_date_key)
  show "\<exists>r. py_lt (date_key y) (date_key x) = Inr r"
    using k by (simp add: py_lt_date_key)
qed

theorem null_date_sorts_as_zero_witness:
  "getattr [(''state'', PyStr ''WA''), (''date'', PyNone)] ''date'' PyNone = PyNone \<and>
   getattr [(''state'', PyStr ''WA''), (''date'', PyInt 5)] ''date'' PyNone = PyInt 5 \<and>
   getattr [(''state'', PyStr ''WA''), (''date'', PyInt (- 5))] ''date'' PyNone = PyInt (- 5) \<and>
   sort_rows [[(''state'', PyStr ''WA''), (''date'', PyInt 5)],
              [(''state'', PyStr ''WA''), (''date'', PyNone)],
              [(''state'', PyStr ''WA''), (''date'', PyInt (- 5))]]
     = ([[(''state'', PyStr ''WA''), (''date'', PyInt (- 5))],
         [(''state'', PyStr ''WA''), (''date'', PyNone)],
         [(''state'', PyStr ''WA''), (''date'', PyInt 5)]], None) \<and>
   date_key [(''state'', PyStr ''WA''), (''date'', PyNone)] = PyInt 0 \<and>
   py_lt (date_key [(''state'', PyStr ''WA''), (''date'', PyNone)])
         (date_key [(''state'', PyStr ''WA''), (''date'', PyInt (- 5))]) = Inr False \<and>
   py_lt (date_key [(''state'', PyStr ''WA''), (''date'', PyInt 5)])
         (date_key [(''state'', PyStr ''WA''), (''date'', PyNone)]) = Inr False \<and>
   numeric (date_key [(''state'', PyStr ''WA''), (''date'', PyInt (- 5))]) \<and>
   (0::int) \<le> 5 \<and> (- 5::int) \<le> 0"
proof -
  let ?r0 = "[(''state'', PyStr ''WA''), (''date'', PyNone)]"
  let ?r5 = "[(''state'', PyStr ''WA''), (''date'', PyInt 5)]"
  let ?rm = "[(''state'', PyStr ''WA''), (''date'', PyInt (- 5))]"
  let ?rows = "[?r5, ?r0, ?rm]"
  note T1 = null_date_sorts_as_zero[of ?r0 ?rows "[]" ?rm "[]" ?r0 "[?r5]" "- 5" ?rm]
  note T2 = null_date_sorts_as_zero[of ?r0 ?rows "[?rm]" ?r0 "[]" ?r5 "[]" 5 ?rm]
  have g0: "getattr ?r0 ''date'' PyNone = PyNone" by (simp add: getattr_def)
  have g5: "getattr ?r5 ''date'' PyNone = PyInt 5" by (simp add: getattr_def)
  have gm: "getattr ?rm ''date'' PyNone = PyInt (- 5)" by (simp add: getattr_def)
  have s: "sort_rows ?rows = ([?rm, ?r0, ?r5], None)" by code_simp
  have s1: "snd (sort_rows ?rows) = None \<and> fst (sort_rows ?rows) = [] @ ?rm # [] @ ?r0 # [?r5]"
    by (simp add: s)
  have s2: "snd (sort_rows ?rows) = None \<and> fst (sort_rows ?rows) = [?rm] @ ?r0 # [] @ ?r5 # []"
    by (simp add: s)
  have k0: "date_key ?r0 = PyInt 0"
    by (rule mp[OF conjunct1[OF T1] g0])
  have o1: "py_lt (date_key ?r0) (date_key ?rm) = Inr False"
    by (rule mp[OF conjunct1[OF conjunct2[OF T1]] s1])
  have o2: "py_lt (date_key ?r5) (date_key ?r0) = Inr False"
    by (rule mp[OF conjunct1[OF conjunct2[OF T2]] s2])
  have h3: "snd (sort_rows ?rows) = None \<and> fst (sort_rows ?rows) = [?rm] @ ?r0 # [] @ ?r5 # [] \<and>
            getattr ?r0 ''date'' PyNone = PyNone \<and> getattr ?r5 ''date'' PyNone = PyInt 5"
    by (intro conjI) (rule conjunct1[OF s2], rule conjunct2[OF s2], rule g0, rule g5)
  have n1: "(0::int) \<le> 5"
    by (rule mp[OF conjunct1[OF conjunct2[OF conjunct2[OF T2]]] h3])
  have h4: "snd (sort_rows ?rows) = None \<and> fst (sort_rows ?rows) = [] @ ?rm # [] @ ?r0 # [?r5] \<and>
            getattr ?rm ''date'' PyNone = PyInt (- 5) \<and> getattr ?r0 ''date'' PyNone = PyNone"
    by (intro conjI) (rule conjunct1[OF s1], rule conjunct2[OF s1], rule gm, rule g0)
  have n2: "(- 5::int) \<le> 0"
    by (rule mp[OF conjunct1[OF conjunct2[OF conjunct2[OF conjunct2[OF T1]]]] h4])
  have nm: "numeric (date_key ?rm)" by code_simp
  have h5: "getattr ?r0 ''date'' PyNone = PyNone \<and> numeric (date_key ?rm)"
    by (intro conjI) (rule g0, rule nm)
  have c5: "\<exists>r. py_lt (date_key ?r0) (date_key ?rm) = Inr r"
    by (rule conjunct1[OF mp[OF conjunct2[OF conjunct2[OF conjunct2[OF conjunct2[OF T1]]]] h5]])
  show ?thesis
    using c5
    by (intro conjI) (rule g0, rule g5, rule gm, rule s, rule k0, rule o1, rule o2, rule nm,
        rule n1, rule n2)
qed

text \<open>
  A record without a date does not always come first: one dated \<open>-5\<close> is sorted before it.
\<close>

theorem null_date_after_negative:
  "getattr [(''state'', PyStr ''WA''), (''date'', PyNone)] ''date'' PyNone = PyNone \<and>
   getattr [(''state'', PyStr ''WA''), (''date'', PyInt (- 5))] ''date'' PyNone = PyInt (- 5) \<and>
   build_index [[(''state'', PyStr ''WA''), (''date'', PyNone)],
                [(''state'', PyStr ''WA''), (''date'', PyInt (- 5))]]
     = Inr [(''WA'', [[(''state'', PyStr ''WA''), (''date'', PyInt (- 5))],
                      [(''state'', PyStr ''WA''), (''date'', PyNone)]])]"
proof (intro conjI)
  show "getattr [(''state'', PyStr ''WA''), (''date'', PyNone)] ''date'' PyNone = PyNone"
    by (simp add: getattr_def)
  show "getattr [(''state'', PyStr ''WA''), (''date'', PyInt (- 5))] ''date'' PyNone = PyInt (- 5)"
    by (simp add: getattr_def)
  show "build_index [[(''state'', PyStr ''WA''), (''date'', PyNone)],
                [(''state'', PyStr ''WA''), (''date'', PyInt (- 5))]]
     = Inr [(''WA'', [[(''state'', PyStr ''WA''), (''date'', PyInt (- 5))],
                      [(''state'', PyStr ''WA''), (''date'', PyNone)]])]"
    by code_simp
qed




end
